theory Spec2Isabelle
  imports Complex_Main "HOL-Library.Log_Nat" "HOL-Library.Sublist" "HOL-Library.Multiset"
begin

section \<open>VibeWalk: route sampling, scoring, path assembly, seeding and reports\<close>

text \<open>
  A shallow embedding of \<^verbatim>\<open>backend/main.py\<close>. The external collaborators (the OSRM
  routing service, the Qdrant client, the embedding model, the crime-data feed) are
  parameters or explicit state; everything the module itself computes is a definition below.
\<close>

subsection \<open>Python floats\<close>

text \<open>
  A finite Python \<^verbatim>\<open>float\<close> is an IEEE-754 binary64 number, here the rational it denotes.
  Every arithmetic operation returns the exact result rounded to the nearest double, ties to
  even (\<open>round53\<close>: 53 significant bits, subnormals below \<open>2^-1022\<close>). Infinities and NaN
  are outside the model: results of magnitude \<open>2^1024\<close> or more are not doubles, and no
  computation below reaches them from coordinates and similarity scores.
\<close>

type_synonym pyfloat = rat

definition round_half_even :: "rat \<Rightarrow> int" where
  "round_half_even r =
     (let f = \<lfloor>r\<rfloor>; d = r - of_int f
      in if d < 1 / 2 then f
         else if 1 / 2 < d then f + 1
         else if even f then f else f + 1)"

definition pow2 :: "int \<Rightarrow> rat" where
  "pow2 e = (if 0 \<le> e then 2 ^ nat e else 1 / 2 ^ nat (- e))"

text \<open>\<open>ilog2 x\<close> is the binary exponent of a positive \<open>x\<close>: \<open>2^e \<le> x < 2^(e+1)\<close>.\<close>

definition ilog2 :: "rat \<Rightarrow> int" where
  "ilog2 x = (if 1 \<le> x then bitlen \<lfloor>x\<rfloor> - 1 else - bitlen (\<lceil>1 / x\<rceil> - 1))"

definition round53 :: "rat \<Rightarrow> pyfloat" where
  "round53 x =
     (if x = 0 then 0
      else let e = max (ilog2 \<bar>x\<bar>) (- 1022); u = pow2 (e - 52)
           in of_int (round_half_even (x / u)) * u)"

text \<open>A decimal literal of the source denotes the double nearest to it.\<close>

definition dbl :: "rat \<Rightarrow> pyfloat" where
  "dbl r = round53 r"

definition fadd :: "pyfloat \<Rightarrow> pyfloat \<Rightarrow> pyfloat" where
  "fadd x y = round53 (x + y)"

definition fsub :: "pyfloat \<Rightarrow> pyfloat \<Rightarrow> pyfloat" where
  "fsub x y = round53 (x - y)"

definition fmul :: "pyfloat \<Rightarrow> pyfloat \<Rightarrow> pyfloat" where
  "fmul x y = round53 (x * y)"

text \<open>Division by the literal \<^verbatim>\<open>2\<close>, the only divisor of a float in the module.\<close>

definition fhalf :: "pyfloat \<Rightarrow> pyfloat" where
  "fhalf x = round53 (x / 2)"

text \<open>
  Python's \<^verbatim>\<open>round(x, 1)\<close>: the exact value of \<open>x\<close> rounded half-even to one decimal,
  then the double nearest to that decimal.
\<close>

definition py_round1 :: "pyfloat \<Rightarrow> pyfloat" where
  "py_round1 x = round53 (of_int (round_half_even (x * 10)) / 10)"

subsection \<open>Errors\<close>

datatype error =
    ZeroDivisionError
  | QueryError
  | ConnectionError
  | CollectionExists
  | CollectionNotFound
  | RequestError
  | IndexError

subsection \<open>Models\<close>

record Point =
  lat :: pyfloat
  lng :: pyfloat

record VibeReport =
  report_lat :: pyfloat
  report_lng :: pyfloat
  description :: string
  report_type :: string

record Recommendation =
  rec_name :: string
  rec_description :: string
  rec_type :: string

text \<open>
  A payload is a dictionary with string keys; the keys the module writes and reads are the
  fields, \<open>None\<close> for an absent key.
\<close>

record payload =
  payload_text :: "string option"
  payload_type :: "string option"
  payload_location :: "(pyfloat \<times> pyfloat) option"
  payload_name :: "string option"
  payload_source :: "string option"
  payload_timestamp :: "string option"
  payload_severity :: "string option"

type_synonym vector = "pyfloat list"

text \<open>A hit of a query: \<^verbatim>\<open>hit.score\<close> and \<^verbatim>\<open>hit.payload\<close>.\<close>

record scored_point =
  hit_score :: pyfloat
  hit_payload :: payload

datatype field_condition =
    GeoRadius string pyfloat pyfloat pyfloat
  | MatchValue string string

definition COLLECTION_NAME :: string where
  "COLLECTION_NAME = ''city_vibes_nyc''"

subsection \<open>The concept vectors\<close>

text \<open>Computed once from the embedding model \<open>get_vector\<close>, and read by every scoring pass.\<close>

definition DANGER_CONCEPT_VECTOR :: "(string \<Rightarrow> vector) \<Rightarrow> vector" where
  "DANGER_CONCEPT_VECTOR get_vector = get_vector ''Crime, assault, robbery, danger, dark, scary''"

definition VIBE_CONCEPT_VECTOR :: "(string \<Rightarrow> vector) \<Rightarrow> vector" where
  "VIBE_CONCEPT_VECTOR get_vector = get_vector ''Fun, delicious, beautiful, safe, happy''"

subsection \<open>The query capability\<close>

text \<open>
  \<open>search\<close> is the index behind \<^verbatim>\<open>qdrant.query_points\<close>: given the collection, the query
  vector, the limit and the filter it raises (\<open>Inl\<close>) or answers with its ranked hits. The
  client returns at most \<open>limit\<close> of them; that contract of the client is the \<open>take\<close>.
\<close>

type_synonym search =
  "string \<Rightarrow> vector \<Rightarrow> nat \<Rightarrow> field_condition list \<Rightarrow> error + scored_point list"

definition query_points ::
  "search \<Rightarrow> string \<Rightarrow> vector \<Rightarrow> nat \<Rightarrow> field_condition list \<Rightarrow> error + scored_point list" where
  "query_points srch coll q limit flt =
     (case srch coll q limit flt of
        Inl e \<Rightarrow> Inl e
      | Inr hits \<Rightarrow> Inr (take limit hits))"

subsection \<open>Route sampling\<close>

text \<open>
  \<^verbatim>\<open>range(i, n, s)\<close> for a positive step. The module only calls it with
  \<open>s = max(1, ...)\<close>; Python raises on a zero step, the model returns the empty list.
\<close>

function py_range :: "nat \<Rightarrow> nat \<Rightarrow> nat \<Rightarrow> nat list" where
  "py_range i n s = (if 0 < s \<and> i < n then i # py_range (i + s) n s else [])"
  by pat_completeness auto
termination
  by (relation "measure (\<lambda>(i, n, s). n - i)") auto

declare py_range.simps [simp del]

definition sample_count :: "'a list \<Rightarrow> nat" where
  "sample_count path = min 10 (length path)"

text \<open>\<^verbatim>\<open>len(path) // sample_count\<close> raises on a zero divisor.\<close>

definition step :: "'a list \<Rightarrow> error + nat" where
  "step path =
     (if sample_count path = 0 then Inl ZeroDivisionError
      else Inr (max 1 (length path div sample_count path)))"

definition sampled_points :: "'a list \<Rightarrow> error + 'a list" where
  "sampled_points path =
     (case step path of
        Inl e \<Rightarrow> Inl e
      | Inr s \<Rightarrow> Inr (take (sample_count path) (map (\<lambda>i. path ! i) (py_range 0 (length path) s))))"

subsection \<open>Route scoring\<close>

text \<open>
  The locals of \<^verbatim>\<open>score_route\<close> that its loops update; \<open>found\<close> is the local list
  \<^verbatim>\<open>recommendations\<close>, whose name the returned \<open>analysis\<close> takes.
\<close>

record scoring =
  total_danger_score :: pyfloat
  hit_count :: nat
  detected_tags :: "string list"
  found :: "Recommendation list"

record analysis =
  score :: pyfloat
  tags :: "string list"
  recommendations :: "Recommendation list"

text \<open>\<^verbatim>\<open>payload.get("text", "")\<close> and \<^verbatim>\<open>payload.get("name", "Unknown Spot")\<close>.\<close>

definition get_text :: "scored_point \<Rightarrow> string" where
  "get_text hit = (case payload_text (hit_payload hit) of None \<Rightarrow> [] | Some t \<Rightarrow> t)"

definition get_name :: "scored_point \<Rightarrow> string" where
  "get_name hit = (case payload_name (hit_payload hit) of None \<Rightarrow> ''Unknown Spot'' | Some n \<Rightarrow> n)"

text \<open>
  \<^verbatim>\<open>s.split(":")[0]\<close>: the text before the first colon, all of it when there is none.
  A text is a list of characters and its length their number.
\<close>

definition split_first :: "string \<Rightarrow> string" where
  "split_first s = takeWhile (\<lambda>c. c \<noteq> CHR '':'') s"

definition danger_step :: "scored_point \<Rightarrow> scoring \<Rightarrow> scoring" where
  "danger_step hit st =
     (if dbl (60 / 100) < hit_score hit then
        let st1 = st\<lparr>total_danger_score := fadd (total_danger_score st) (hit_score hit),
                     hit_count := hit_count st + 1\<rparr>;
            tag = split_first (get_text hit)
        in if length tag < 30 \<and> tag \<notin> set (detected_tags st1)
           then st1\<lparr>detected_tags := detected_tags st1 @ [tag]\<rparr>
           else st1
      else st)"

definition rec_step :: "scored_point \<Rightarrow> scoring \<Rightarrow> scoring" where
  "rec_step hit st =
     (if dbl (75 / 100) < hit_score hit then
        let name = get_name hit; desc = get_text hit
        in if \<not> list_ex (\<lambda>r. rec_name r = name) (found st)
           then st\<lparr>found := found st @
                  [\<lparr>rec_name = name, rec_description = desc, rec_type = ''place''\<rparr>]\<rparr>
           else st
      else st)"

definition danger_query :: "(string \<Rightarrow> vector) \<Rightarrow> search \<Rightarrow> Point \<Rightarrow> error + scored_point list" where
  "danger_query get_vector srch p =
     query_points srch COLLECTION_NAME (DANGER_CONCEPT_VECTOR get_vector) 2
       [GeoRadius ''location'' (lat p) (lng p) 150]"

definition vibe_query :: "(string \<Rightarrow> vector) \<Rightarrow> search \<Rightarrow> Point \<Rightarrow> error + scored_point list" where
  "vibe_query get_vector srch p =
     query_points srch COLLECTION_NAME (VIBE_CONCEPT_VECTOR get_vector) 1
       [GeoRadius ''location'' (lat p) (lng p) 100, MatchValue ''type'' ''review'']"

text \<open>
  The loop over the sampled points. Neither query is guarded by a handler, so an exception
  of the index leaves the function at once.
\<close>

fun score_points ::
  "(string \<Rightarrow> vector) \<Rightarrow> search \<Rightarrow> Point list \<Rightarrow> scoring \<Rightarrow> error + scoring" where
  "score_points get_vector srch [] st = Inr st"
| "score_points get_vector srch (p # ps) st =
     (case danger_query get_vector srch p of
        Inl e \<Rightarrow> Inl e
      | Inr danger_hits \<Rightarrow>
          let st1 = fold danger_step danger_hits st
          in if length (found st1) < 2 then
               (case vibe_query get_vector srch p of
                  Inl e \<Rightarrow> Inl e
                | Inr rec_hits \<Rightarrow> score_points get_vector srch ps (fold rec_step rec_hits st1))
             else score_points get_vector srch ps st1)"

definition initial_scoring :: scoring where
  "initial_scoring =
     \<lparr>total_danger_score = 0, hit_count = 0, detected_tags = [], found = []\<rparr>"

definition penalty :: "scoring \<Rightarrow> pyfloat" where
  "penalty st = fmul (total_danger_score st) 4"

definition final_score :: "scoring \<Rightarrow> pyfloat" where
  "final_score st = max 1 (min 10 (fsub 10 (penalty st)))"

text \<open>The state of the locals when the loop is left, before the result is assembled.\<close>

definition scoring_pass ::
  "(string \<Rightarrow> vector) \<Rightarrow> search \<Rightarrow> Point list \<Rightarrow> error + scoring" where
  "scoring_pass get_vector srch path =
     (case sampled_points path of
        Inl e \<Rightarrow> Inl e
      | Inr pts \<Rightarrow> score_points get_vector srch pts initial_scoring)"

definition score_route ::
  "(string \<Rightarrow> vector) \<Rightarrow> search \<Rightarrow> Point list \<Rightarrow> error + analysis" where
  "score_route get_vector srch path =
     (case scoring_pass get_vector srch path of
        Inl e \<Rightarrow> Inl e
      | Inr st \<Rightarrow>
          Inr \<lparr>score = final_score st,
               tags = take 4 (detected_tags st),
               recommendations = found st\<rparr>)"

subsection \<open>Path generation\<close>

text \<open>
  \<open>osrm\<close> is the routing service behind \<^verbatim>\<open>requests.get(...).json()\<close>: for a profile and two
  points it raises (\<open>Inl\<close>: no connection, a timeout, no JSON, a reply of another shape) or
  answers with a code and routes, each route the \<open>[lng, lat]\<close> pairs of its geometry.
\<close>

record osrm_data =
  osrm_code :: "string option"
  osrm_routes :: "(pyfloat \<times> pyfloat) list list"

type_synonym osrm = "string \<Rightarrow> Point \<Rightarrow> Point \<Rightarrow> error + osrm_data"

definition fetch_osrm_route :: "osrm \<Rightarrow> Point \<Rightarrow> Point \<Rightarrow> string \<Rightarrow> Point list" where
  "fetch_osrm_route svc start end' profile =
     (case svc profile start end' of
        Inl e \<Rightarrow> []
      | Inr data \<Rightarrow>
          if osrm_code data = Some ''Ok'' \<and> osrm_routes data \<noteq> []
          then map (\<lambda>c. \<lparr>lat = snd c, lng = fst c\<rparr>) (hd (osrm_routes data))
          else [])"

text \<open>The midpoint of the request, moved north or south by \<open>offset\<close> (about 300 m).\<close>

definition offset :: pyfloat where
  "offset = dbl (3 / 1000)"

definition waypoint_north :: "Point \<Rightarrow> Point \<Rightarrow> Point" where
  "waypoint_north start end' =
     \<lparr>lat = fadd (fhalf (fadd (lat start) (lat end'))) offset,
      lng = fhalf (fadd (lng start) (lng end'))\<rparr>"

definition waypoint_south :: "Point \<Rightarrow> Point \<Rightarrow> Point" where
  "waypoint_south start end' =
     \<lparr>lat = fsub (fhalf (fadd (lat start) (lat end'))) offset,
      lng = fhalf (fadd (lng start) (lng end'))\<rparr>"

definition generate_real_paths :: "osrm \<Rightarrow> Point \<Rightarrow> Point \<Rightarrow> Point list list" where
  "generate_real_paths svc start end' =
     (let direct = fetch_osrm_route svc start end' ''foot'';
          paths1 = (if direct \<noteq> [] then [direct] else []);
          alt1_a = fetch_osrm_route svc start (waypoint_north start end') ''foot'';
          alt1_b = fetch_osrm_route svc (waypoint_north start end') end' ''foot'';
          paths2 = (if alt1_a \<noteq> [] \<and> alt1_b \<noteq> [] then paths1 @ [alt1_a @ drop 1 alt1_b]
                    else paths1);
          alt2_a = fetch_osrm_route svc start (waypoint_south start end') ''foot'';
          alt2_b = fetch_osrm_route svc (waypoint_south start end') end' ''foot'';
          paths3 = (if alt2_a \<noteq> [] \<and> alt2_b \<noteq> [] then paths2 @ [alt2_a @ drop 1 alt2_b]
                    else paths2)
      in if paths3 = [] then [[start, end']] else paths3)"

subsection \<open>The routes endpoint\<close>

record RouteOption =
  route_id :: string
  route_path :: "Point list"
  safety_score :: pyfloat
  route_tags :: "string list"
  route_description :: string
  route_recommendations :: "Recommendation list"

definition descriptions :: "string list" where
  "descriptions = [''Direct Walking Route'', ''North Alternate'', ''South Alternate'']"

text \<open>The decimal digits of \<open>i\<close>, for \<^verbatim>\<open>f"route-{i}"\<close>.\<close>

fun str_nat :: "nat \<Rightarrow> string" where
  "str_nat n =
     (if n < 10 then [char_of (48 + n)]
      else str_nat (n div 10) @ [char_of (48 + n mod 10)])"

declare str_nat.simps [simp del]

text \<open>
  One entry of the response: the score rounded to one decimal, \<^verbatim>\<open>descriptions[i]\<close>
  raising past the end of the list.
\<close>

definition route_option :: "nat \<Rightarrow> Point list \<Rightarrow> analysis \<Rightarrow> error + RouteOption" where
  "route_option i path a =
     (if i < length descriptions then
        Inr \<lparr>route_id = ''route-'' @ str_nat i,
             route_path = path,
             safety_score = py_round1 (score a),
             route_tags = tags a,
             route_description = descriptions ! i,
             route_recommendations = recommendations a\<rparr>
      else Inl IndexError)"

fun route_options ::
  "(string \<Rightarrow> vector) \<Rightarrow> search \<Rightarrow> (nat \<times> Point list) list \<Rightarrow> error + RouteOption list" where
  "route_options get_vector srch [] = Inr []"
| "route_options get_vector srch ((i, path) # rest) =
     (case score_route get_vector srch path of
        Inl e \<Rightarrow> Inl e
      | Inr a \<Rightarrow>
          (case route_option i path a of
             Inl e \<Rightarrow> Inl e
           | Inr opt \<Rightarrow>
               (case route_options get_vector srch rest of
                  Inl e \<Rightarrow> Inl e
                | Inr response \<Rightarrow> Inr (opt # response))))"

definition get_routes ::
  "(string \<Rightarrow> vector) \<Rightarrow> search \<Rightarrow> osrm \<Rightarrow> pyfloat \<Rightarrow> pyfloat \<Rightarrow> pyfloat \<Rightarrow> pyfloat
     \<Rightarrow> error + RouteOption list" where
  "get_routes get_vector srch svc start_lat start_lng end_lat end_lng =
     (let start = \<lparr>lat = start_lat, lng = start_lng\<rparr>;
          end' = \<lparr>lat = end_lat, lng = end_lng\<rparr>;
          paths = generate_real_paths svc start end'
      in route_options get_vector srch (enumerate 0 paths))"

subsection \<open>The index as a store\<close>

text \<open>
  The Qdrant client's writing side: named collections of points, a point replaced when its
  id is stored already. \<^verbatim>\<open>create_collection\<close> raises on a name that exists and
  \<^verbatim>\<open>upsert\<close> on one that does not. A procedure returns what it returned or raised,
  paired with the store it leaves.
\<close>

datatype point_id = IntId nat | StrId string

record PointStruct =
  point_id :: point_id
  point_vector :: vector
  point_payload :: payload

type_synonym qdrant = "(string \<times> PointStruct list) list"

type_synonym 'a outcome = "(error + 'a) \<times> qdrant"

text \<open>\<open>fault\<close>: the listing request fails (the server is gone, the call times out).\<close>

definition get_collections :: "bool \<Rightarrow> qdrant \<Rightarrow> error + string list" where
  "get_collections fault q = (if fault then Inl ConnectionError else Inr (map fst q))"

definition create_collection :: "string \<Rightarrow> qdrant \<Rightarrow> unit outcome" where
  "create_collection name q =
     (if name \<in> set (map fst q) then (Inl CollectionExists, q)
      else (Inr (), q @ [(name, [])]))"

fun upsert_point :: "PointStruct \<Rightarrow> PointStruct list \<Rightarrow> PointStruct list" where
  "upsert_point p [] = [p]"
| "upsert_point p (x # xs) =
     (if point_id x = point_id p then p # xs else x # upsert_point p xs)"

definition upsert :: "string \<Rightarrow> PointStruct list \<Rightarrow> qdrant \<Rightarrow> unit outcome" where
  "upsert name points q =
     (if name \<in> set (map fst q)
      then (Inr (), map (\<lambda>c. if fst c = name then (fst c, fold upsert_point points (snd c)) else c) q)
      else (Inl CollectionNotFound, q))"

text \<open>All the points of the index, collection after collection.\<close>

definition records :: "qdrant \<Rightarrow> PointStruct list" where
  "records q = concat (map snd q)"

subsection \<open>Startup and seeding\<close>

text \<open>
  A record of the crime feed. \<open>None\<close> for a coordinate: the key is missing or the value is
  no number, and \<^verbatim>\<open>float(record["latitude"])\<close> raises.
\<close>

record crime_record =
  pd_desc :: "string option"
  latitude :: "pyfloat option"
  longitude :: "pyfloat option"

record seed_point =
  seed_text :: string
  seed_type :: string
  seed_lat :: pyfloat
  seed_lng :: pyfloat
  seed_name :: "string option"

text \<open>
  The loop over the feed, inside the \<^verbatim>\<open>try\<close>: the first record that raises ends it, and
  the points appended so far stay.
\<close>

fun crime_points :: "crime_record list \<Rightarrow> seed_point list \<Rightarrow> seed_point list" where
  "crime_points [] points = points"
| "crime_points (r # rs) points =
     (let desc = (case pd_desc r of None \<Rightarrow> ''Unspecified Crime'' | Some d \<Rightarrow> d)
      in case latitude r of
           None \<Rightarrow> points
         | Some la \<Rightarrow>
             (case longitude r of
                None \<Rightarrow> points
              | Some lo \<Rightarrow>
                  if dbl (4070 / 100) < la \<and> la < dbl (4080 / 100)
                     \<and> - dbl (7402 / 100) < lo \<and> lo < - dbl (7395 / 100)
                  then crime_points rs
                         (points @ [\<lparr>seed_text = ''Crime Report: '' @ desc, seed_type = ''crime'',
                                     seed_lat = la, seed_lng = lo, seed_name = None\<rparr>])
                  else crime_points rs points))"

definition reviews :: "seed_point list" where
  "reviews =
     [\<lparr>seed_text = ''Joe's Pizza - Best slice in NY! Felt super safe and busy.'',
       seed_type = ''review'', seed_lat = dbl (407305 / 10000), seed_lng = - dbl (740021 / 10000),
       seed_name = Some ''Joe's Pizza''\<rparr>,
      \<lparr>seed_text = ''Bryant Park - Lovely place to sit and have coffee. Security is visible.'',
       seed_type = ''review'', seed_lat = dbl (407536 / 10000), seed_lng = - dbl (739832 / 10000),
       seed_name = Some ''Bryant Park''\<rparr>,
      \<lparr>seed_text = ''MOMA - Amazing art, very secure entrance and clean area.'',
       seed_type = ''review'', seed_lat = dbl (407614 / 10000), seed_lng = - dbl (739776 / 10000),
       seed_name = Some ''MOMA''\<rparr>,
      \<lparr>seed_text = ''High Line - Beautiful walk, filled with tourists and families.'',
       seed_type = ''review'', seed_lat = dbl (407480 / 10000), seed_lng = - dbl (740048 / 10000),
       seed_name = Some ''The High Line''\<rparr>,
      \<lparr>seed_text = ''Subway Station Entrance - A bit sketchy at night, saw some fights.'',
       seed_type = ''review'', seed_lat = dbl (407505 / 10000), seed_lng = - dbl (739934 / 10000),
       seed_name = Some ''Subway Entrance''\<rparr>,
      \<lparr>seed_text = ''Dark alley behavior near 8th Ave, avoid alone.'',
       seed_type = ''review'', seed_lat = dbl (407550 / 10000), seed_lng = - dbl (739920 / 10000),
       seed_name = Some ''8th Ave Corner''\<rparr>]"

definition seed_struct :: "(string \<Rightarrow> vector) \<Rightarrow> nat \<Rightarrow> seed_point \<Rightarrow> PointStruct" where
  "seed_struct get_vector i p =
     \<lparr>point_id = IntId i,
      point_vector = get_vector (seed_text p),
      point_payload =
        \<lparr>payload_text = Some (seed_text p), payload_type = Some (seed_type p),
         payload_location = Some (seed_lat p, seed_lng p), payload_name = seed_name p,
         payload_source = None, payload_timestamp = None, payload_severity = None\<rparr>\<rparr>"

text \<open>The batch loop: \<open>upsert_points\<close> is sent and emptied whenever it holds 100 points.\<close>

fun batch_upsert ::
  "(string \<Rightarrow> vector) \<Rightarrow> (nat \<times> seed_point) list \<Rightarrow> PointStruct list \<Rightarrow> qdrant
     \<Rightarrow> (PointStruct list) outcome" where
  "batch_upsert get_vector [] upsert_points q = (Inr upsert_points, q)"
| "batch_upsert get_vector ((i, p) # rest) upsert_points q =
     (let upsert_points' = upsert_points @ [seed_struct get_vector i p]
      in if 100 \<le> length upsert_points' then
           (case upsert COLLECTION_NAME upsert_points' q of
              (Inl e, q') \<Rightarrow> (Inl e, q')
            | (Inr u, q') \<Rightarrow> batch_upsert get_vector rest [] q')
         else batch_upsert get_vector rest upsert_points' q)"

text \<open>\<open>feed\<close>: what fetching and decoding the crime data gives, \<open>Inl\<close> when that raises.\<close>

definition seed_nyc_data ::
  "(string \<Rightarrow> vector) \<Rightarrow> (error + crime_record list) \<Rightarrow> qdrant \<Rightarrow> unit outcome" where
  "seed_nyc_data get_vector feed q =
     (let crimes = (case feed of Inl e \<Rightarrow> [] | Inr crime_data \<Rightarrow> crime_points crime_data []);
          points = crimes @ reviews
      in case batch_upsert get_vector (enumerate 0 points) [] q of
           (Inl e, q') \<Rightarrow> (Inl e, q')
         | (Inr upsert_points, q') \<Rightarrow>
             if upsert_points \<noteq> [] then upsert COLLECTION_NAME upsert_points q'
             else (Inr (), q'))"

text \<open>The branch the startup takes, as its log line reports it.\<close>

datatype startup_log = Collection_created | Collection_already_exists

definition startup_event ::
  "(string \<Rightarrow> vector) \<Rightarrow> bool \<Rightarrow> (error + crime_record list) \<Rightarrow> qdrant \<Rightarrow> startup_log outcome" where
  "startup_event get_vector fault feed q =
     (let exists = (case get_collections fault q of
                      Inl e \<Rightarrow> False
                    | Inr collections \<Rightarrow> list_ex (\<lambda>c. c = COLLECTION_NAME) collections)
      in if \<not> exists then
           (case create_collection COLLECTION_NAME q of
              (Inl e, q') \<Rightarrow> (Inl e, q')
            | (Inr u, q') \<Rightarrow>
                (case seed_nyc_data get_vector feed q' of
                   (Inl e, q'') \<Rightarrow> (Inl e, q'')
                 | (Inr u', q'') \<Rightarrow> (Inr Collection_created, q'')))
         else (Inr Collection_already_exists, q))"

subsection \<open>User reports\<close>

record report_response =
  response_status :: string
  response_message :: string
  response_location :: "pyfloat \<times> pyfloat"

text \<open>
  \<open>uuid\<close> and \<open>now\<close> are the fresh identifier and the clock reading of the call. The request
  model declares two floats and two strings and nothing more, so a \<open>VibeReport\<close> is any
  such four values.
\<close>

definition report_point :: "(string \<Rightarrow> vector) \<Rightarrow> string \<Rightarrow> string \<Rightarrow> VibeReport \<Rightarrow> PointStruct" where
  "report_point get_vector uuid now report =
     \<lparr>point_id = StrId uuid,
      point_vector = get_vector (description report),
      point_payload =
        \<lparr>payload_text = Some (description report),
         payload_type = Some (report_type report),
         payload_location = Some (report_lat report, report_lng report),
         payload_name = None,
         payload_source = Some ''user_report'',
         payload_timestamp = Some now,
         payload_severity = Some ''high''\<rparr>\<rparr>"

definition report_vibe ::
  "(string \<Rightarrow> vector) \<Rightarrow> string \<Rightarrow> string \<Rightarrow> VibeReport \<Rightarrow> qdrant \<Rightarrow> report_response outcome" where
  "report_vibe get_vector uuid now report q =
     (case upsert COLLECTION_NAME [report_point get_vector uuid now report] q of
        (Inl e, q') \<Rightarrow> (Inl e, q')
      | (Inr u, q') \<Rightarrow>
          (Inr \<lparr>response_status = ''success'',
                response_message = ''Vibe memory updated. Search again to see impact.'',
                response_location = (report_lat report, report_lng report)\<rparr>, q'))"

section \<open>Specification\<close>

text \<open>
  What the specification says the module computes, in the specification's words; the
  theorems below compare the definitions above with these.
\<close>

subsection \<open>Sampling every \<open>s\<close>-th point\<close>

text \<open>The points at the indices \<open>0, s, 2s, ...\<close> below the length, the first ten of them.\<close>

definition stride_selection :: "'a list \<Rightarrow> 'a list" where
  "stride_selection path =
     (let s = max 1 (length path div 10)
      in take 10 (map (\<lambda>k. path ! (k * s)) (filter (\<lambda>k. k * s < length path) [0..<length path])))"

subsection \<open>Hits, thresholds and the aggregated danger\<close>

definition counted :: "scored_point \<Rightarrow> bool" where
  "counted hit = (dbl (60 / 100) < hit_score hit)"

definition liked :: "scored_point \<Rightarrow> bool" where
  "liked hit = (dbl (75 / 100) < hit_score hit)"

definition danger_hits_at :: "(string \<Rightarrow> vector) \<Rightarrow> search \<Rightarrow> Point \<Rightarrow> scored_point list" where
  "danger_hits_at get_vector srch p =
     (case danger_query get_vector srch p of Inl e \<Rightarrow> [] | Inr hits \<Rightarrow> hits)"

definition rec_hits_at :: "(string \<Rightarrow> vector) \<Rightarrow> search \<Rightarrow> Point \<Rightarrow> scored_point list" where
  "rec_hits_at get_vector srch p =
     (case vibe_query get_vector srch p of Inl e \<Rightarrow> [] | Inr hits \<Rightarrow> hits)"

definition danger_hits :: "(string \<Rightarrow> vector) \<Rightarrow> search \<Rightarrow> Point list \<Rightarrow> scored_point list" where
  "danger_hits get_vector srch path =
     (case sampled_points path of
        Inl e \<Rightarrow> []
      | Inr pts \<Rightarrow> concat (map (danger_hits_at get_vector srch) pts))"

definition rec_hits :: "(string \<Rightarrow> vector) \<Rightarrow> search \<Rightarrow> Point list \<Rightarrow> scored_point list" where
  "rec_hits get_vector srch path =
     (case sampled_points path of
        Inl e \<Rightarrow> []
      | Inr pts \<Rightarrow> concat (map (rec_hits_at get_vector srch) pts))"

definition fsum :: "pyfloat list \<Rightarrow> pyfloat" where
  "fsum xs = foldl fadd 0 xs"

definition total_danger :: "(string \<Rightarrow> vector) \<Rightarrow> search \<Rightarrow> Point list \<Rightarrow> pyfloat" where
  "total_danger get_vector srch path =
     fsum (map hit_score (filter counted (danger_hits get_vector srch path)))"

definition clamp :: "pyfloat \<Rightarrow> pyfloat \<Rightarrow> pyfloat \<Rightarrow> pyfloat" where
  "clamp x lo hi = max lo (min hi x)"

subsection \<open>Tags in first-seen order, recommendations\<close>

fun first_seen :: "'a list \<Rightarrow> 'a list" where
  "first_seen [] = []"
| "first_seen (x # xs) = x # first_seen (filter (\<lambda>y. y \<noteq> x) xs)"

fun append_new :: "'a list \<Rightarrow> 'a list \<Rightarrow> 'a list" where
  "append_new acc [] = acc"
| "append_new acc (c # cs) = append_new (if c \<in> set acc then acc else acc @ [c]) cs"

definition candidate_tags :: "scored_point list \<Rightarrow> string list" where
  "candidate_tags hits =
     filter (\<lambda>t. length t < 30)
       (map (\<lambda>h. takeWhile (\<lambda>c. c \<noteq> CHR '':'') (get_text h)) (filter counted hits))"

definition recommendation_of :: "scored_point \<Rightarrow> Recommendation" where
  "recommendation_of hit =
     \<lparr>rec_name = get_name hit, rec_description = get_text hit, rec_type = ''place''\<rparr>"

text \<open>
  One sampled point whose two queries have answered: the body of the loop of
  \<open>score_points\<close> past its two error exits.
\<close>

definition point_step :: "(string \<Rightarrow> vector) \<Rightarrow> search \<Rightarrow> Point \<Rightarrow> scoring \<Rightarrow> scoring" where
  "point_step get_vector srch p st =
     (let st1 = fold danger_step (danger_hits_at get_vector srch p) st
      in if length (found st1) < 2 then fold rec_step (rec_hits_at get_vector srch p) st1 else st1)"

subsection \<open>Sample inputs\<close>

text \<open>
  An embedding model that answers the zero vector for every text, a point of the demo
  area, and three indexes: one that raises on every query, one with two crime reports
  around every point and no review, one with a well-liked review around \<open>times_square\<close>
  and the same place written in lower case everywhere else.
\<close>

definition mock_vector :: "string \<Rightarrow> vector" where
  "mock_vector text = replicate 384 0"

definition times_square :: Point where
  "times_square = \<lparr>lat = dbl (407505 / 10000), lng = - dbl (739934 / 10000)\<rparr>"

definition text_hit :: "pyfloat \<Rightarrow> string \<Rightarrow> string option \<Rightarrow> scored_point" where
  "text_hit s t n =
     \<lparr>hit_score = s,
      hit_payload = \<lparr>payload_text = Some t, payload_type = None, payload_location = None,
                     payload_name = n, payload_source = None, payload_timestamp = None,
                     payload_severity = None\<rparr>\<rparr>"

definition broken_index :: search where
  "broken_index coll q limit flt = Inl QueryError"

definition two_reports_index :: search where
  "two_reports_index coll q limit flt =
     (if MatchValue ''type'' ''review'' \<in> set flt then Inr []
      else Inr [text_hit (dbl (8 / 10)) ''Crime Report: ROBBERY'' None,
                text_hit (dbl (65 / 100)) ''Crime Report: ASSAULT 3'' None])"

definition variants_index :: search where
  "variants_index coll q limit flt =
     (if MatchValue ''type'' ''review'' \<in> set flt then
        (if GeoRadius ''location'' (lat times_square) (lng times_square) 100 \<in> set flt
         then Inr [text_hit (dbl (9 / 10)) ''MOMA - Amazing art, very secure entrance.''
                     (Some ''MOMA'')]
         else Inr [text_hit (dbl (8 / 10)) ''moma - amazing art'' (Some ''moma'')])
      else Inr [])"

text \<open>
  A routing service that is down and one that answers every request with the straight
  segment; a store that holds the empty target collection; a report far outside the valid
  coordinate ranges with an empty text.
\<close>

definition osrm_down :: osrm where
  "osrm_down profile a b = Inl RequestError"

definition osrm_straight :: osrm where
  "osrm_straight profile a b =
     Inr \<lparr>osrm_code = Some ''Ok'', osrm_routes = [[(lng a, lat a), (lng b, lat b)]]\<rparr>"

definition bryant_park :: Point where
  "bryant_park = \<lparr>lat = dbl (407536 / 10000), lng = - dbl (739832 / 10000)\<rparr>"

definition empty_collection :: qdrant where
  "empty_collection = [(COLLECTION_NAME, [])]"

definition bad_report :: VibeReport where
  "bad_report = \<lparr>report_lat = 100, report_lng = 200, description = [], report_type = ''report''\<rparr>"

text \<open>
  A crime feed of four records: one inside the demo area, one outside it, one without a
  latitude, and one more inside the area that the loop no longer reaches. The store after
  a first startup on the empty index with this feed.
\<close>

definition sample_feed :: "crime_record list" where
  "sample_feed =
     [\<lparr>pd_desc = Some ''ROBBERY,OPEN AREA UNCLASSIFIED'',
       latitude = Some (dbl (4075 / 100)), longitude = Some (- dbl (7399 / 100))\<rparr>,
      \<lparr>pd_desc = Some ''ASSAULT 3'',
       latitude = Some (dbl (4085 / 100)), longitude = Some (- dbl (7399 / 100))\<rparr>,
      \<lparr>pd_desc = None, latitude = None, longitude = Some (- dbl (7399 / 100))\<rparr>,
      \<lparr>pd_desc = None,
       latitude = Some (dbl (4076 / 100)), longitude = Some (- dbl (7398 / 100))\<rparr>]"

definition seeded_store :: qdrant where
  "seeded_store = snd (startup_event mock_vector False (Inr sample_feed) [])"


section \<open>The route sampler\<close>

subsection \<open>The range and the indices it selects\<close>

lemma py_range_multiples:
  "0 < s \<Longrightarrow> py_range (j * s) n s = map (\<lambda>k. k * s) (filter (\<lambda>k. k * s < n) [j..<n])"
proof (induction "n - j" arbitrary: j)
  case 0
  then have nj: "n \<le> j" by simp
  then have "n \<le> j * s" using 0 by (cases s) auto
  then have "py_range (j * s) n s = []" by (simp add: py_range.simps)
  moreover have "filter (\<lambda>k. k * s < n) [j..<n] = []" using nj by simp
  ultimately show ?case by simp
next
  case (Suc d)
  then have jn: "j < n" and d: "d = n - Suc j" by auto
  show ?case
  proof (cases "j * s < n")
    case True
    have "py_range (j * s) n s = j * s # py_range (Suc j * s) n s"
      using True Suc.prems by (simp add: py_range.simps add.commute)
    also have "py_range (Suc j * s) n s = map (\<lambda>k. k * s) (filter (\<lambda>k. k * s < n) [Suc j..<n])"
      using Suc.hyps(1)[OF d Suc.prems] .
    finally show ?thesis using True jn by (simp add: upt_conv_Cons)
  next
    case False
    have "filter (\<lambda>k. k * s < n) [j..<n] = []"
    proof -
      have "\<not> k * s < n" if "j \<le> k" for k
      proof -
        have "j * s \<le> k * s" using that by simp
        with False show ?thesis by linarith
      qed
      then show ?thesis by (auto simp: filter_empty_conv)
    qed
    moreover have "py_range (j * s) n s = []" using False by (simp add: py_range.simps)
    ultimately show ?thesis by simp
  qed
qed

lemma py_range_0:
  "0 < s \<Longrightarrow> py_range 0 n s = map (\<lambda>k. k * s) (filter (\<lambda>k. k * s < n) [0..<n])"
  using py_range_multiples[of s 0 n] by simp

lemma multiples_sorted:
  "0 < s \<Longrightarrow> sorted_wrt (<) (map (\<lambda>k. k * s) (filter (\<lambda>k. k * s < n) [0..<n]))" for s :: nat
proof -
  assume s: "0 < s"
  have "sorted_wrt (<) (filter (\<lambda>k. k * s < n) [0..<n])"
    by (simp add: sorted_wrt_filter)
  then have "sorted_wrt (\<lambda>a b. a * s < b * s) (filter (\<lambda>k. k * s < n) [0..<n])"
    using s by (auto elim: sorted_wrt_mono_rel[rotated])
  then show ?thesis by (simp add: sorted_wrt_map)
qed

subsection \<open>Reading a list at increasing indices keeps its order\<close>

lemma map_nth_filter_subseq: "subseq (map (\<lambda>i. xs ! i) (filter P [0..<length xs])) xs"
  by (metis map_nth subseq_filter_left subseq_map)

lemma map_nth_sorted_subseq:
  assumes "sorted_wrt (<) (js::nat list)" and "\<forall>j\<in>set js. j < length xs"
  shows "subseq (map (\<lambda>i. xs ! i) js) xs"
proof -
  have "sorted_wrt (<) (filter (\<lambda>i. i \<in> set js) [0..<length xs])"
    by (simp add: sorted_wrt_filter)
  moreover have "set (filter (\<lambda>i. i \<in> set js) [0..<length xs]) = set js"
    using assms(2) by auto
  ultimately have "js = filter (\<lambda>i. i \<in> set js) [0..<length xs]"
    using assms(1) by (metis strict_sorted_equal)
  then show ?thesis using map_nth_filter_subseq[of xs "\<lambda>i. i \<in> set js"] by simp
qed

lemma subseq_take: "subseq (take n xs) xs"
  by (simp add: prefix_imp_subseq take_is_prefix)

subsection \<open>The stride and the selection\<close>

lemma step_eq: "path \<noteq> [] \<Longrightarrow> step path = Inr (max 1 (length path div 10))"
proof -
  assume "path \<noteq> []"
  then have l: "0 < length path" by simp
  show ?thesis
  proof (cases "10 \<le> length path")
    case True
    then show ?thesis by (simp add: step_def sample_count_def min_def)
  next
    case False
    then have "length path div 10 = 0" by simp
    with False l show ?thesis by (simp add: step_def sample_count_def min_def)
  qed
qed

lemma sampled_points_selection:
  assumes "path \<noteq> []"
  shows "sampled_points path = Inr (stride_selection path)"
proof -
  define s where "s = max 1 (length path div 10)"
  define ks where "ks = filter (\<lambda>k. k * s < length path) [0..<length path]"
  have s: "0 < s" by (simp add: s_def)
  have len: "length ks \<le> length path"
    unfolding ks_def using length_filter_le[of _ "[0..<length path]"] by simp
  have st: "step path = Inr s" using step_eq[OF assms] by (simp add: s_def)
  have pr: "py_range 0 (length path) s = map (\<lambda>k. k * s) ks"
    using py_range_0[OF s, of "length path"] by (simp add: ks_def)
  have "sampled_points path = Inr (take (sample_count path) (map (\<lambda>k. path ! (k * s)) ks))"
    by (simp add: sampled_points_def st pr o_def)
  also have "take (sample_count path) (map (\<lambda>k. path ! (k * s)) ks) = take 10 (map (\<lambda>k. path ! (k * s)) ks)"
    using len by (simp add: sample_count_def min_def)
  also have "take 10 (map (\<lambda>k. path ! (k * s)) ks) = stride_selection path"
    by (simp add: stride_selection_def s_def ks_def Let_def)
  finally show ?thesis .
qed

lemma stride_selection_props:
  assumes "path \<noteq> []"
  shows "length (stride_selection path) \<le> 10"
    and "subseq (stride_selection path) path"
    and "stride_selection path \<noteq> []"
    and "hd (stride_selection path) = hd path"
proof -
  define s where "s = max 1 (length path div 10)"
  define ks where "ks = filter (\<lambda>k. k * s < length path) [0..<length path]"
  have s: "0 < s" by (simp add: s_def)
  have sel: "stride_selection path = take 10 (map (\<lambda>i. path ! i) (map (\<lambda>k. k * s) ks))"
    by (simp add: stride_selection_def s_def ks_def o_def Let_def)
  show "length (stride_selection path) \<le> 10" by (simp add: sel)
  have "subseq (map (\<lambda>i. path ! i) (map (\<lambda>k. k * s) ks)) path"
    using multiples_sorted[OF s, of "length path"]
    by (intro map_nth_sorted_subseq) (auto simp: ks_def)
  then show "subseq (stride_selection path) path"
    unfolding sel using subseq_take subseq_order.trans by blast
  have "[0..<length path] = 0 # [1..<length path]" using assms by (simp add: upt_conv_Cons)
  then have ks: "ks = 0 # filter (\<lambda>k. k * s < length path) [1..<length path]"
    using assms by (simp add: ks_def)
  show "stride_selection path \<noteq> []" by (simp add: sel ks)
  show "hd (stride_selection path) = hd path" using assms by (simp add: sel ks hd_conv_nth)
qed

lemma sampled_points_single: "sampled_points [p] = Inr [p]"
  using sampled_points_selection[of "[p]"] by (simp add: stride_selection_def)

text \<open>
  C4. For a non-empty path the sampler returns exactly the points at the indices
  \<open>0, s, 2s, ...\<close> of the path, cut to ten, for \<open>s = max 1 (length path div 10)\<close>; the
  selection has at most ten points, is a subsequence of the path (the order is kept) and
  starts with the first point of the path.
\<close>

theorem route_sampler_selection:
  assumes "path \<noteq> []"
  shows "sampled_points path = Inr (stride_selection path)
       \<and> length (stride_selection path) \<le> 10
       \<and> subseq (stride_selection path) path
       \<and> stride_selection path \<noteq> []
       \<and> hd (stride_selection path) = hd path"
  using sampled_points_selection[OF assms] stride_selection_props[OF assms] by simp

theorem route_sampler_selection_witness:
  "sampled_points [0::nat, 1, 2, 3, 4, 5, 6, 7, 8, 9, 10, 11, 12, 13, 14, 15, 16, 17, 18, 19,
                   20, 21, 22, 23, 24]
     = Inr [0, 2, 4, 6, 8, 10, 12, 14, 16, 18]"
proof -
  have ne: "[0::nat, 1, 2, 3, 4, 5, 6, 7, 8, 9, 10, 11, 12, 13, 14, 15, 16, 17, 18, 19,
             20, 21, 22, 23, 24] \<noteq> []" by simp
  have sel: "stride_selection [0::nat, 1, 2, 3, 4, 5, 6, 7, 8, 9, 10, 11, 12, 13, 14, 15, 16,
                               17, 18, 19, 20, 21, 22, 23, 24]
     = [0, 2, 4, 6, 8, 10, 12, 14, 16, 18]" by code_simp
  from route_sampler_selection[OF ne] show ?thesis by (simp only: sel)
qed

text \<open>
  C10. On the empty path \<open>sample_count\<close> is \<open>0\<close> and the stride's division raises
  \<open>ZeroDivisionError\<close>, which leaves \<open>score_route\<close>; on every non-empty path
  \<open>sample_count\<close> is at least \<open>1\<close>, the stride is positive and the sampling returns.
\<close>

theorem score_route_requires_path:
  "sample_count ([] :: Point list) = 0
   \<and> step ([] :: Point list) = Inl ZeroDivisionError
   \<and> score_route get_vector srch [] = Inl ZeroDivisionError
   \<and> (path \<noteq> [] \<longrightarrow>
        1 \<le> sample_count path
      \<and> (\<exists>s. step path = Inr s \<and> 0 < s)
      \<and> (\<exists>pts. sampled_points path = Inr pts))"
proof -
  have "score_route get_vector srch [] = Inl ZeroDivisionError"
    by (simp add: score_route_def scoring_pass_def sampled_points_def step_def sample_count_def)
  moreover have "1 \<le> sample_count path" if "path \<noteq> []"
    using that by (cases path) (simp_all add: sample_count_def)
  moreover have "\<exists>s. step path = Inr s \<and> 0 < s" if "path \<noteq> []"
    using step_eq[OF that] by simp
  moreover have "\<exists>pts. sampled_points path = Inr pts" if "path \<noteq> []"
    using sampled_points_selection[OF that] by simp
  ultimately show ?thesis by (simp add: step_def sample_count_def)
qed

theorem score_route_requires_path_witness:
  "score_route mock_vector broken_index [] = Inl ZeroDivisionError
   \<and> [times_square] \<noteq> []
   \<and> sample_count [times_square] = 1
   \<and> step [times_square] = Inr 1
   \<and> sampled_points [times_square] = Inr [times_square]"
  using score_route_requires_path[of mock_vector broken_index "[times_square]"]
  by (simp add: sample_count_def step_def sampled_points_single)

section \<open>The scoring pass\<close>

subsection \<open>The loop as a fold\<close>

lemma danger_step_total:
  "total_danger_score (danger_step h st) =
     (if counted h then fadd (total_danger_score st) (hit_score h) else total_danger_score st)"
  by (simp add: danger_step_def counted_def Let_def)

lemma fold_danger_step_total:
  "total_danger_score (fold danger_step hs st) =
     foldl fadd (total_danger_score st) (map hit_score (filter counted hs))"
  by (induction hs arbitrary: st) (simp_all add: danger_step_total)

lemma rec_step_keeps:
  "total_danger_score (rec_step h st) = total_danger_score st"
  "detected_tags (rec_step h st) = detected_tags st"
  by (simp_all add: rec_step_def Let_def)

lemma fold_rec_step_keeps:
  "total_danger_score (fold rec_step hs st) = total_danger_score st"
  "detected_tags (fold rec_step hs st) = detected_tags st"
  by (induction hs arbitrary: st) (simp_all add: rec_step_keeps)

lemma danger_step_found: "found (danger_step h st) = found st"
  by (simp add: danger_step_def Let_def)

lemma fold_danger_step_found: "found (fold danger_step hs st) = found st"
  by (induction hs arbitrary: st) (simp_all add: danger_step_found)

lemma score_points_fold:
  "score_points get_vector srch pts st = Inr st' \<Longrightarrow>
   st' = fold (point_step get_vector srch) pts st"
proof (induction pts arbitrary: st)
  case Nil
  then show ?case by simp
next
  case (Cons p ps)
  from Cons.prems obtain hs where hs: "danger_query get_vector srch p = Inr hs"
    by (auto split: sum.splits)
  have at: "danger_hits_at get_vector srch p = hs" by (simp add: danger_hits_at_def hs)
  define st1 where "st1 = fold danger_step hs st"
  show ?case
  proof (cases "length (found st1) < 2")
    case True
    with Cons.prems hs obtain rs where
      rs: "vibe_query get_vector srch p = Inr rs"
      and rest: "score_points get_vector srch ps (fold rec_step rs st1) = Inr st'"
      by (auto simp: st1_def Let_def split: sum.splits)
    have "point_step get_vector srch p st = fold rec_step rs st1"
      using True by (simp add: point_step_def at rec_hits_at_def rs st1_def)
    with Cons.IH[OF rest] show ?thesis by simp
  next
    case False
    with Cons.prems hs have rest: "score_points get_vector srch ps st1 = Inr st'"
      by (auto simp: st1_def Let_def split: sum.splits)
    have "point_step get_vector srch p st = st1"
      using False by (simp add: point_step_def at st1_def)
    with Cons.IH[OF rest] show ?thesis by simp
  qed
qed

lemma fold_point_step_total:
  "total_danger_score (fold (point_step get_vector srch) pts st) =
     foldl fadd (total_danger_score st)
       (map hit_score (filter counted (concat (map (danger_hits_at get_vector srch) pts))))"
proof (induction pts arbitrary: st)
  case Nil
  show ?case by simp
next
  case (Cons p ps)
  have "total_danger_score (point_step get_vector srch p st) =
      foldl fadd (total_danger_score st)
        (map hit_score (filter counted (danger_hits_at get_vector srch p)))"
    by (simp add: point_step_def Let_def fold_rec_step_keeps fold_danger_step_total)
  then show ?case by (simp add: Cons.IH)
qed

text \<open>What a returned analysis is made of.\<close>

lemma score_route_Inr:
  assumes "score_route get_vector srch path = Inr res"
  obtains pts st where
    "sampled_points path = Inr pts"
    "st = fold (point_step get_vector srch) pts initial_scoring"
    "res = \<lparr>score = final_score st, tags = take 4 (detected_tags st), recommendations = found st\<rparr>"
proof -
  from assms obtain st where sp: "scoring_pass get_vector srch path = Inr st"
    and res: "res = \<lparr>score = final_score st, tags = take 4 (detected_tags st), recommendations = found st\<rparr>"
    by (auto simp: score_route_def split: sum.splits)
  from sp obtain pts where pts: "sampled_points path = Inr pts"
    and run: "score_points get_vector srch pts initial_scoring = Inr st"
    by (auto simp: scoring_pass_def split: sum.splits)
  from score_points_fold[OF run] pts res that show thesis by blast
qed

text \<open>When no query raises, the pass returns: \<open>score_route\<close> is total on non-empty paths.\<close>

lemma score_points_returns:
  assumes "\<forall>coll q limit flt. \<exists>hits. srch coll q limit flt = Inr hits"
  shows "\<exists>st'. score_points get_vector srch pts st = Inr st'"
proof (induction pts arbitrary: st)
  case Nil
  show ?case by simp
next
  case (Cons p ps)
  have q: "\<exists>hits. query_points srch coll q limit flt = Inr hits" for coll q limit flt
  proof -
    from assms obtain hits where "srch coll q limit flt = Inr hits" by blast
    then show ?thesis by (simp add: query_points_def)
  qed
  obtain hs where hs: "danger_query get_vector srch p = Inr hs"
    unfolding danger_query_def using q by blast
  obtain rs where rs: "vibe_query get_vector srch p = Inr rs"
    unfolding vibe_query_def using q by blast
  show ?case using Cons.IH by (simp add: hs rs Let_def)
qed

lemma score_route_returns:
  assumes "path \<noteq> []" and "\<forall>coll q limit flt. \<exists>hits. srch coll q limit flt = Inr hits"
  shows "\<exists>res. score_route get_vector srch path = Inr res"
proof -
  obtain st where "score_points get_vector srch (stride_selection path) initial_scoring = Inr st"
    using score_points_returns[OF assms(2), of get_vector "stride_selection path" initial_scoring]
    by blast
  then show ?thesis
    by (simp add: score_route_def scoring_pass_def sampled_points_selection[OF assms(1)])
qed

subsection \<open>Double arithmetic at the constants of the score\<close>

lemma round53_10: "round53 10 = 10" by code_simp

lemma round53_0: "round53 0 = 0" by (simp add: round53_def)

lemma fmul_commute: "fmul x y = fmul y x"
  by (simp add: fmul_def mult.commute)

lemma two_reports_analysis:
  "score_route mock_vector two_reports_index [times_square] =
     Inr \<lparr>score = 1182194902184755 / 281474976710656,
          tags = [''Crime Report''], recommendations = []\<rparr>"
  by code_simp

subsection \<open>The score\<close>

text \<open>
  C1. The score of a scored path is \<open>clamp (10.0 - 4.0 * totalDanger) 1.0 10.0\<close> in double
  arithmetic, \<open>totalDanger\<close> the sum, accumulated in sample order, of the similarities above
  \<open>0.60\<close> of the danger hits of all sampled points; it lies in \<open>[1, 10]\<close>, and is exactly
  \<open>10\<close> when no hit is above the threshold.
\<close>

theorem score_route_score:
  assumes "score_route get_vector srch path = Inr res"
  shows "score res = clamp (fsub 10 (fmul 4 (total_danger get_vector srch path))) 1 10
       \<and> 1 \<le> score res \<and> score res \<le> 10
       \<and> (filter counted (danger_hits get_vector srch path) = [] \<longrightarrow> score res = 10)"
proof -
  from assms obtain pts st where
    pts: "sampled_points path = Inr pts" and
    st: "st = fold (point_step get_vector srch) pts initial_scoring" and
    res: "res = \<lparr>score = final_score st, tags = take 4 (detected_tags st), recommendations = found st\<rparr>"
    by (rule score_route_Inr)
  have tot: "total_danger_score st = total_danger get_vector srch path"
    by (simp add: st fold_point_step_total total_danger_def danger_hits_def pts fsum_def
        initial_scoring_def)
  have sc: "score res = clamp (fsub 10 (fmul 4 (total_danger get_vector srch path))) 1 10"
    by (simp add: res final_score_def penalty_def tot clamp_def fmul_commute[of 4])
  have bounds: "1 \<le> score res \<and> score res \<le> 10"
    by (simp add: res final_score_def)
  have zero: "score res = 10" if "filter counted (danger_hits get_vector srch path) = []"
  proof -
    have "total_danger get_vector srch path = 0" by (simp add: total_danger_def that fsum_def)
    then show ?thesis
      by (simp add: sc fmul_def fsub_def round53_0 round53_10 clamp_def)
  qed
  from sc bounds zero show ?thesis by blast
qed

theorem score_route_score_witness:
  "score_route mock_vector two_reports_index [times_square] =
     Inr \<lparr>score = 1182194902184755 / 281474976710656,
          tags = [''Crime Report''], recommendations = []\<rparr>
   \<and> clamp (fsub 10 (fmul 4 (total_danger mock_vector two_reports_index [times_square]))) 1 10
       = 1182194902184755 / 281474976710656"
  using score_route_score[OF two_reports_analysis] two_reports_analysis by simp

section \<open>Tags\<close>

subsection \<open>Appending what is new keeps the first occurrences\<close>

lemma append_new_append: "append_new acc (xs @ ys) = append_new (append_new acc xs) ys"
  by (induction xs arbitrary: acc) simp_all

lemma append_new_first_seen:
  "append_new acc cs = acc @ first_seen (filter (\<lambda>c. c \<notin> set acc) cs)"
proof (induction cs arbitrary: acc)
  case Nil
  show ?case by simp
next
  case (Cons c cs)
  show ?case
  proof (cases "c \<in> set acc")
    case True
    then show ?thesis using Cons.IH[of acc] by simp
  next
    case False
    have "filter (\<lambda>x. x \<notin> set (acc @ [c])) cs = filter (\<lambda>y. y \<noteq> c) (filter (\<lambda>x. x \<notin> set acc) cs)"
      by (induction cs) auto
    then show ?thesis using False Cons.IH[of "acc @ [c]"] by simp
  qed
qed

lemma set_first_seen: "set (first_seen xs) = set xs"
proof (induction xs rule: first_seen.induct)
  case 1
  show ?case by simp
next
  case (2 x xs)
  then show ?case by auto
qed

lemma distinct_first_seen: "distinct (first_seen xs)"
proof (induction xs rule: first_seen.induct)
  case 1
  show ?case by simp
next
  case (2 x xs)
  then show ?case by (simp add: set_first_seen)
qed

lemma append_new_Nil: "append_new [] cs = first_seen cs"
  by (simp add: append_new_first_seen)

subsection \<open>The tags the loop collects\<close>

lemma danger_step_tags:
  "detected_tags (danger_step h st) = append_new (detected_tags st) (candidate_tags [h])"
  by (simp add: danger_step_def candidate_tags_def counted_def split_first_def Let_def)

lemma candidate_tags_append: "candidate_tags (xs @ ys) = candidate_tags xs @ candidate_tags ys"
  by (simp add: candidate_tags_def)

lemma candidate_tags_Cons: "candidate_tags (x # xs) = candidate_tags [x] @ candidate_tags xs"
  using candidate_tags_append[of "[x]" xs] by simp

lemma fold_danger_step_tags:
  "detected_tags (fold danger_step hs st) = append_new (detected_tags st) (candidate_tags hs)"
proof (induction hs arbitrary: st)
  case Nil
  show ?case by (simp add: candidate_tags_def)
next
  case (Cons h hs)
  have "detected_tags (fold danger_step (h # hs) st) =
        append_new (append_new (detected_tags st) (candidate_tags [h])) (candidate_tags hs)"
    by (simp add: Cons.IH danger_step_tags)
  then show ?case by (simp add: append_new_append[symmetric] candidate_tags_Cons[of h hs])
qed

lemma point_step_tags:
  "detected_tags (point_step get_vector srch p st) =
     append_new (detected_tags st) (candidate_tags (danger_hits_at get_vector srch p))"
  by (simp add: point_step_def Let_def fold_rec_step_keeps fold_danger_step_tags)

lemma candidate_tags_concat:
  "candidate_tags (concat xss) = concat (map candidate_tags xss)"
  by (induction xss) (simp_all add: candidate_tags_append, simp add: candidate_tags_def)

lemma fold_point_step_tags:
  "detected_tags (fold (point_step get_vector srch) pts st) =
     append_new (detected_tags st)
       (candidate_tags (concat (map (danger_hits_at get_vector srch) pts)))"
proof (induction pts arbitrary: st)
  case Nil
  show ?case by (simp add: candidate_tags_def)
next
  case (Cons p ps)
  show ?case
    by (simp add: Cons.IH point_step_tags candidate_tags_append append_new_append)
qed

lemma candidate_tags_origin:
  "t \<in> set (candidate_tags hits) \<Longrightarrow>
   length t < 30 \<and>
   (\<exists>h\<in>set hits. counted h \<and> t = takeWhile (\<lambda>c. c \<noteq> CHR '':'') (get_text h))"
  by (auto simp: candidate_tags_def)

text \<open>
  C7. The returned tags are the first four, in first-seen order, of the distinct tag
  candidates: the texts before the first colon, shorter than 30 characters, of the danger
  hits above the threshold. So they are at most four, pairwise different, and each is such
  a prefix of some danger hit's text.
\<close>

theorem score_route_tags:
  assumes "score_route get_vector srch path = Inr res"
  shows "tags res = take 4 (first_seen (candidate_tags (danger_hits get_vector srch path)))
       \<and> length (tags res) \<le> 4
       \<and> distinct (tags res)
       \<and> (\<forall>t\<in>set (tags res).
            length t < 30 \<and>
            (\<exists>h\<in>set (danger_hits get_vector srch path).
               t = takeWhile (\<lambda>c. c \<noteq> CHR '':'') (get_text h)))"
proof -
  from assms obtain pts st where
    pts: "sampled_points path = Inr pts" and
    st: "st = fold (point_step get_vector srch) pts initial_scoring" and
    res: "res = \<lparr>score = final_score st, tags = take 4 (detected_tags st), recommendations = found st\<rparr>"
    by (rule score_route_Inr)
  have "detected_tags st = first_seen (candidate_tags (danger_hits get_vector srch path))"
    by (simp add: st fold_point_step_tags initial_scoring_def append_new_Nil danger_hits_def pts)
  then have eq: "tags res = take 4 (first_seen (candidate_tags (danger_hits get_vector srch path)))"
    by (simp add: res)
  have len: "length (tags res) \<le> 4" by (simp add: res)
  have dist: "distinct (tags res)"
    unfolding eq by (rule distinct_take) (rule distinct_first_seen)
  have orig: "length t < 30 \<and>
      (\<exists>h\<in>set (danger_hits get_vector srch path).
         t = takeWhile (\<lambda>c. c \<noteq> CHR '':'') (get_text h))" if "t \<in> set (tags res)" for t
  proof -
    from that have "t \<in> set (first_seen (candidate_tags (danger_hits get_vector srch path)))"
      unfolding eq by (rule in_set_takeD)
    then have "t \<in> set (candidate_tags (danger_hits get_vector srch path))"
      by (simp add: set_first_seen)
    from candidate_tags_origin[OF this] show ?thesis by blast
  qed
  from eq len dist orig show ?thesis by blast
qed

theorem score_route_tags_witness:
  "score_route mock_vector two_reports_index [times_square] =
     Inr \<lparr>score = 1182194902184755 / 281474976710656,
          tags = [''Crime Report''], recommendations = []\<rparr>
   \<and> take 4 (first_seen (candidate_tags (danger_hits mock_vector two_reports_index [times_square])))
       = [''Crime Report'']"
  using score_route_tags[OF two_reports_analysis] two_reports_analysis by simp

section \<open>Recommendations\<close>

lemma list_ex_name: "list_ex (\<lambda>r. rec_name r = n) rs \<longleftrightarrow> n \<in> rec_name ` set rs"
  by (induction rs) auto

lemma rec_step_found:
  "found (rec_step h st) =
     (if liked h \<and> get_name h \<notin> rec_name ` set (found st)
      then found st @ [recommendation_of h] else found st)"
  by (simp add: rec_step_def liked_def recommendation_of_def Let_def list_ex_name)

lemma fold_rec_step_length:
  "length (found (fold rec_step hs st)) \<le> length (found st) + length hs"
proof (induction hs arbitrary: st)
  case Nil
  show ?case by simp
next
  case (Cons h hs)
  have "length (found (rec_step h st)) \<le> Suc (length (found st))"
    by (simp add: rec_step_found)
  with Cons.IH[of "rec_step h st"] show ?case by simp
qed

lemma rec_step_distinct:
  "distinct (map rec_name (found st)) \<Longrightarrow> distinct (map rec_name (found (rec_step h st)))"
  by (simp add: rec_step_found recommendation_of_def)

lemma fold_rec_step_distinct:
  "distinct (map rec_name (found st)) \<Longrightarrow>
   distinct (map rec_name (found (fold rec_step hs st)))"
  by (induction hs arbitrary: st) (simp_all add: rec_step_distinct)

lemma fold_rec_step_origin:
  "set (found (fold rec_step hs st)) \<subseteq>
     set (found st) \<union> recommendation_of ` {h \<in> set hs. liked h}"
proof (induction hs arbitrary: st)
  case Nil
  show ?case by simp
next
  case (Cons h hs)
  have "set (found (rec_step h st)) \<subseteq> set (found st) \<union> recommendation_of ` {x \<in> {h}. liked x}"
    by (auto simp: rec_step_found)
  with Cons.IH[of "rec_step h st"] show ?case by auto
qed

lemma query_points_length:
  "query_points srch coll q limit flt = Inr hits \<Longrightarrow> length hits \<le> limit"
  by (auto simp: query_points_def split: sum.splits)

lemma rec_hits_at_length: "length (rec_hits_at get_vector srch p) \<le> 1"
proof (cases "vibe_query get_vector srch p")
  case (Inl e)
  then show ?thesis by (simp add: rec_hits_at_def)
next
  case (Inr hits)
  then have "length hits \<le> 1" unfolding vibe_query_def by (rule query_points_length)
  with Inr show ?thesis by (simp add: rec_hits_at_def)
qed

lemma point_step_found_length:
  assumes "length (found st) \<le> 2"
  shows "length (found (point_step get_vector srch p st)) \<le> 2"
proof -
  define st1 where "st1 = fold danger_step (danger_hits_at get_vector srch p) st"
  have f1: "found st1 = found st" by (simp add: st1_def fold_danger_step_found)
  show ?thesis
  proof (cases "length (found st1) < 2")
    case True
    have "length (found (fold rec_step (rec_hits_at get_vector srch p) st1))
            \<le> length (found st1) + length (rec_hits_at get_vector srch p)"
      by (rule fold_rec_step_length)
    also have "\<dots> \<le> 2" using True rec_hits_at_length[of get_vector srch p] by linarith
    finally show ?thesis using True by (simp add: point_step_def st1_def[symmetric])
  next
    case False
    then show ?thesis using assms f1 by (simp add: point_step_def st1_def[symmetric])
  qed
qed

lemma point_step_found_distinct:
  assumes "distinct (map rec_name (found st))"
  shows "distinct (map rec_name (found (point_step get_vector srch p st)))"
  using assms
  by (simp add: point_step_def Let_def fold_rec_step_distinct fold_danger_step_found)

lemma point_step_found_origin:
  "set (found (point_step get_vector srch p st)) \<subseteq>
     set (found st) \<union> recommendation_of ` {h \<in> set (rec_hits_at get_vector srch p). liked h}"
proof -
  define st1 where "st1 = fold danger_step (danger_hits_at get_vector srch p) st"
  have f1: "found st1 = found st" by (simp add: st1_def fold_danger_step_found)
  show ?thesis
    using fold_rec_step_origin[of "rec_hits_at get_vector srch p" st1]
    by (auto simp: point_step_def st1_def[symmetric] f1)
qed

lemma fold_point_step_found:
  assumes "length (found st) \<le> 2" and "distinct (map rec_name (found st))"
  shows "length (found (fold (point_step get_vector srch) pts st)) \<le> 2
       \<and> distinct (map rec_name (found (fold (point_step get_vector srch) pts st)))
       \<and> set (found (fold (point_step get_vector srch) pts st)) \<subseteq>
           set (found st) \<union>
           recommendation_of `
             {h \<in> set (concat (map (rec_hits_at get_vector srch) pts)). liked h}"
  using assms
proof (induction pts arbitrary: st)
  case Nil
  then show ?case by simp
next
  case (Cons p ps)
  note IH = Cons.IH[OF point_step_found_length[OF Cons.prems(1)]
                       point_step_found_distinct[OF Cons.prems(2)], of get_vector srch p]
  have o: "set (found (point_step get_vector srch p st)) \<subseteq>
     set (found st) \<union> recommendation_of ` {h \<in> set (rec_hits_at get_vector srch p). liked h}"
    by (rule point_step_found_origin)
  have split: "recommendation_of ` {h \<in> set (concat (map (rec_hits_at get_vector srch) (p # ps))). liked h}
      = recommendation_of ` {h \<in> set (rec_hits_at get_vector srch p). liked h}
        \<union> recommendation_of ` {h \<in> set (concat (map (rec_hits_at get_vector srch) ps)). liked h}"
    by auto
  from IH have
    a: "length (found (fold (point_step get_vector srch) (p # ps) st)) \<le> 2" and
    b: "distinct (map rec_name (found (fold (point_step get_vector srch) (p # ps) st)))" and
    c: "set (found (fold (point_step get_vector srch) (p # ps) st)) \<subseteq>
          set (found (point_step get_vector srch p st)) \<union>
          recommendation_of ` {h \<in> set (concat (map (rec_hits_at get_vector srch) ps)). liked h}"
    by simp_all
  from c o have "set (found (fold (point_step get_vector srch) (p # ps) st)) \<subseteq>
          set (found st) \<union>
          recommendation_of ` {h \<in> set (concat (map (rec_hits_at get_vector srch) (p # ps))). liked h}"
    unfolding split by blast
  with a b show ?case by blast
qed

lemma variants_analysis:
  "score_route mock_vector variants_index [times_square, times_square, bryant_park, bryant_park] =
     Inr \<lparr>score = 10, tags = [],
          recommendations =
            [\<lparr>rec_name = ''MOMA'',
              rec_description = ''MOMA - Amazing art, very secure entrance.'',
              rec_type = ''place''\<rparr>,
             \<lparr>rec_name = ''moma'', rec_description = ''moma - amazing art'',
              rec_type = ''place''\<rparr>]\<rparr>"
  by code_simp

text \<open>
  C6. The returned recommendations are at most two and no two of them have the same name
  (equality of strings, character by character); each comes from a hit of a recommendation
  query with similarity above \<open>0.75\<close>, and one step of the loop appends exactly when the
  hit is above \<open>0.75\<close> and its name, \<open>Unknown Spot\<close> when it has none, is not in the list yet.
\<close>

theorem score_route_recommendations:
  assumes "score_route get_vector srch path = Inr res"
  shows "length (recommendations res) \<le> 2
       \<and> distinct (map rec_name (recommendations res))
       \<and> (\<forall>r\<in>set (recommendations res).
            \<exists>h\<in>set (rec_hits get_vector srch path). liked h \<and> r = recommendation_of h)
       \<and> (\<forall>hit st. found (rec_step hit st) =
            (if liked hit \<and> get_name hit \<notin> rec_name ` set (found st)
             then found st @ [recommendation_of hit] else found st))"
proof -
  from assms obtain pts st where
    pts: "sampled_points path = Inr pts" and
    st: "st = fold (point_step get_vector srch) pts initial_scoring" and
    res: "res = \<lparr>score = final_score st, tags = take 4 (detected_tags st), recommendations = found st\<rparr>"
    by (rule score_route_Inr)
  have init: "length (found initial_scoring) \<le> 2" "distinct (map rec_name (found initial_scoring))"
    by (simp_all add: initial_scoring_def)
  from fold_point_step_found[OF init, of get_vector srch pts] have
    len: "length (found st) \<le> 2" and
    dist: "distinct (map rec_name (found st))" and
    sub: "set (found st) \<subseteq>
            recommendation_of ` {h \<in> set (rec_hits get_vector srch path). liked h}"
    by (simp_all add: st rec_hits_def pts initial_scoring_def)
  have orig: "\<exists>h\<in>set (rec_hits get_vector srch path). liked h \<and> r = recommendation_of h"
    if "r \<in> set (recommendations res)" for r
    using that sub by (auto simp: res)
  from len dist orig rec_step_found show ?thesis by (simp add: res)
qed

theorem score_route_recommendations_witness:
  "score_route mock_vector variants_index [times_square, times_square, bryant_park, bryant_park] =
     Inr \<lparr>score = 10, tags = [],
          recommendations =
            [\<lparr>rec_name = ''MOMA'',
              rec_description = ''MOMA - Amazing art, very secure entrance.'',
              rec_type = ''place''\<rparr>,
             \<lparr>rec_name = ''moma'', rec_description = ''moma - amazing art'',
              rec_type = ''place''\<rparr>]\<rparr>
   \<and> distinct [''MOMA'', ''moma'']"
  using score_route_recommendations[OF variants_analysis] variants_analysis by simp

section \<open>A query that fails\<close>

text \<open>
  The first danger query of the pass is issued at the first point of the path; when it
  raises, so does \<open>score_route\<close>.
\<close>

lemma danger_query_failure:
  assumes "path \<noteq> []" and "danger_query get_vector srch (hd path) = Inl e"
  shows "score_route get_vector srch path = Inl e"
proof -
  from assms(1) obtain ps where "stride_selection path = hd path # ps"
    using stride_selection_props(3,4)[OF assms(1)] by (cases "stride_selection path") auto
  then show ?thesis
    by (simp add: score_route_def scoring_pass_def sampled_points_selection[OF assms(1)] assms(2))
qed

text \<open>
  C2. The specification wants a failed query counted as no hits and the pass completed.
  On the index that raises on every query the pass returns no analysis: the error of the
  first query is the outcome of \<open>score_route\<close>.
\<close>

theorem query_failure_propagates:
  "score_route mock_vector broken_index [times_square] = Inl QueryError"
  by code_simp

section \<open>Two danger reports at a single sampled point\<close>

lemma fold_rec_step_none:
  "\<forall>h\<in>set rs. \<not> liked h \<Longrightarrow> found (fold rec_step rs st) = found st"
  by (induction rs arbitrary: st) (simp_all add: rec_step_found)

lemma thresholds: "dbl (60 / 100) < dbl (8 / 10)" "dbl (60 / 100) < dbl (65 / 100)"
  by code_simp+

lemma two_hits_total:
  "fadd (fadd 0 (dbl (8 / 10))) (dbl (65 / 100)) = 1632554864921805 / 1125899906842624"
  by code_simp

lemma two_hits_penalty:
  "fmul (1632554864921805 / 1125899906842624) 4 = 1632554864921805 / 281474976710656"
  by code_simp

lemma two_hits_score:
  "fsub 10 (1632554864921805 / 281474976710656) = 1182194902184755 / 281474976710656"
  by code_simp

lemma two_hits_rounded: "py_round1 (1182194902184755 / 281474976710656) = dbl (42 / 10)"
  by code_simp

text \<open>
  C9, as the code computes it. With similarities \<open>0.8\<close> and \<open>0.65\<close> at the only sampled
  point and no recommendation above the threshold, the doubles the pass computes are
  \<open>totalDanger = 1.4500000000000002\<close>, \<open>penalty = 5.800000000000001\<close> and
  \<open>score = 4.199999999999999\<close>, each within \<open>10^-15\<close> of \<open>1.45\<close>, \<open>5.8\<close>, \<open>4.2\<close>; the
  score rounded to one decimal, as the routes endpoint reports it, is \<open>4.2\<close>.
\<close>

theorem two_hits_scenario:
  assumes "danger_query get_vector srch p = Inr [h1, h2]"
    and "hit_score h1 = dbl (8 / 10)" and "hit_score h2 = dbl (65 / 100)"
    and "vibe_query get_vector srch p = Inr rs" and "\<forall>h\<in>set rs. \<not> liked h"
  shows "\<exists>st res.
           scoring_pass get_vector srch [p] = Inr st
         \<and> score_route get_vector srch [p] = Inr res
         \<and> total_danger_score st = 1632554864921805 / 1125899906842624
         \<and> penalty st = 1632554864921805 / 281474976710656
         \<and> score res = 1182194902184755 / 281474976710656
         \<and> recommendations res = []
         \<and> \<bar>total_danger_score st - 145 / 100\<bar> < 1 / 10 ^ 15
         \<and> \<bar>penalty st - 58 / 10\<bar> < 1 / 10 ^ 15
         \<and> \<bar>score res - 42 / 10\<bar> < 1 / 10 ^ 15
         \<and> py_round1 (score res) = dbl (42 / 10)"
proof -
  define st1 where "st1 = fold danger_step [h1, h2] initial_scoring"
  define st where "st = fold rec_step rs st1"
  have f1: "found st1 = []"
    unfolding st1_def fold_danger_step_found by (simp add: initial_scoring_def)
  then have "length (found (fold danger_step [h1, h2] initial_scoring)) < 2"
    by (simp add: st1_def)
  then have run: "score_points get_vector srch [p] initial_scoring = Inr st"
    unfolding st_def st1_def by (simp add: assms(1,4) del: fold_simps)
  have pass: "scoring_pass get_vector srch [p] = Inr st"
    by (simp add: scoring_pass_def sampled_points_single run del: score_points.simps)
  have c: "counted h1" "counted h2"
    unfolding counted_def assms(2) assms(3) by (rule thresholds)+
  have "total_danger_score st1 = fadd (fadd 0 (hit_score h1)) (hit_score h2)"
    unfolding st1_def fold_danger_step_total by (simp add: c initial_scoring_def)
  also have "\<dots> = 1632554864921805 / 1125899906842624"
    unfolding assms(2) assms(3) by (rule two_hits_total)
  finally have tot: "total_danger_score st = 1632554864921805 / 1125899906842624"
    by (simp only: st_def fold_rec_step_keeps)
  have pen: "penalty st = 1632554864921805 / 281474976710656"
    unfolding penalty_def tot by (rule two_hits_penalty)
  have "fsub 10 (penalty st) = 1182194902184755 / 281474976710656"
    unfolding pen by (rule two_hits_score)
  then have fin: "final_score st = 1182194902184755 / 281474976710656"
    by (simp add: final_score_def)
  have fnd: "found st = []" by (simp add: st_def fold_rec_step_none[OF assms(5)] f1)
  define res where "res = \<lparr>score = final_score st, tags = take 4 (detected_tags st),
                           recommendations = found st\<rparr>"
  have route: "score_route get_vector srch [p] = Inr res"
    by (simp add: score_route_def pass res_def)
  have sc: "score res = 1182194902184755 / 281474976710656" by (simp only: res_def fin analysis.simps)
  have "recommendations res = []" by (simp add: res_def fnd)
  moreover have "\<bar>total_danger_score st - 145 / 100\<bar> < 1 / 10 ^ 15" by (simp add: tot)
  moreover have "\<bar>penalty st - 58 / 10\<bar> < 1 / 10 ^ 15" by (simp add: pen)
  moreover have "\<bar>score res - 42 / 10\<bar> < 1 / 10 ^ 15" by (simp add: sc)
  moreover have "py_round1 (score res) = dbl (42 / 10)"
    unfolding sc by (rule two_hits_rounded)
  ultimately show ?thesis using pass route tot pen sc by blast
qed

lemma two_reports_danger:
  "danger_query mock_vector two_reports_index times_square =
     Inr [text_hit (dbl (8 / 10)) ''Crime Report: ROBBERY'' None,
          text_hit (dbl (65 / 100)) ''Crime Report: ASSAULT 3'' None]"
  by (simp add: danger_query_def query_points_def two_reports_index_def)

lemma two_reports_vibe: "vibe_query mock_vector two_reports_index times_square = Inr []"
  by (simp add: vibe_query_def query_points_def two_reports_index_def)

lemma two_reports_pass:
  "scoring_pass mock_vector two_reports_index [times_square] =
     Inr \<lparr>total_danger_score = 1632554864921805 / 1125899906842624, hit_count = 2,
          detected_tags = [''Crime Report''], found = []\<rparr>"
  by code_simp

theorem two_hits_scenario_witness:
  "danger_query mock_vector two_reports_index times_square =
     Inr [text_hit (dbl (8 / 10)) ''Crime Report: ROBBERY'' None,
          text_hit (dbl (65 / 100)) ''Crime Report: ASSAULT 3'' None]
   \<and> vibe_query mock_vector two_reports_index times_square = Inr []
   \<and> py_round1 (score \<lparr>score = 1182194902184755 / 281474976710656,
                           tags = [''Crime Report''], recommendations = []\<rparr>) = dbl (42 / 10)"
proof -
  have h1: "hit_score (text_hit (dbl (8 / 10)) ''Crime Report: ROBBERY'' None) = dbl (8 / 10)"
    by (simp add: text_hit_def)
  have h2: "hit_score (text_hit (dbl (65 / 100)) ''Crime Report: ASSAULT 3'' None) = dbl (65 / 100)"
    by (simp add: text_hit_def)
  have h5: "\<forall>h\<in>set []. \<not> liked h" by simp
  from two_hits_scenario[OF two_reports_danger h1 h2 two_reports_vibe h5]
  obtain res where "score_route mock_vector two_reports_index [times_square] = Inr res"
    and "py_round1 (score res) = dbl (42 / 10)" by blast
  then show ?thesis
    by (simp add: two_reports_analysis two_reports_danger two_reports_vibe)
qed

text \<open>
  C9, as stated, fails: at the index with these two reports the accumulated danger is
  neither the rational \<open>1.45\<close> nor the double written \<open>1.45\<close>, and likewise the penalty
  and the score.
\<close>

theorem two_hits_scenario_counterexample:
  "danger_query mock_vector two_reports_index times_square =
     Inr [text_hit (dbl (8 / 10)) ''Crime Report: ROBBERY'' None,
          text_hit (dbl (65 / 100)) ''Crime Report: ASSAULT 3'' None]
   \<and> vibe_query mock_vector two_reports_index times_square = Inr []
   \<and> sampled_points [times_square] = Inr [times_square]
   \<and> scoring_pass mock_vector two_reports_index [times_square] =
       Inr \<lparr>total_danger_score = 1632554864921805 / 1125899906842624, hit_count = 2,
            detected_tags = [''Crime Report''], found = []\<rparr>
   \<and> (1632554864921805 / 1125899906842624 :: rat) \<noteq> 145 / 100
   \<and> (1632554864921805 / 1125899906842624 :: rat) \<noteq> dbl (145 / 100)
   \<and> penalty \<lparr>total_danger_score = 1632554864921805 / 1125899906842624, hit_count = 2,
               detected_tags = [''Crime Report''], found = []\<rparr> \<noteq> 58 / 10
   \<and> penalty \<lparr>total_danger_score = 1632554864921805 / 1125899906842624, hit_count = 2,
               detected_tags = [''Crime Report''], found = []\<rparr> \<noteq> dbl (58 / 10)
   \<and> score_route mock_vector two_reports_index [times_square] =
       Inr \<lparr>score = 1182194902184755 / 281474976710656,
            tags = [''Crime Report''], recommendations = []\<rparr>
   \<and> (1182194902184755 / 281474976710656 :: rat) \<noteq> 42 / 10
   \<and> (1182194902184755 / 281474976710656 :: rat) \<noteq> dbl (42 / 10)"
proof -
  have a: "(1632554864921805 / 1125899906842624 :: rat) \<noteq> dbl (145 / 100)" by code_simp
  have b: "penalty \<lparr>total_danger_score = 1632554864921805 / 1125899906842624, hit_count = 2,
               detected_tags = [''Crime Report''], found = []\<rparr> = 1632554864921805 / 281474976710656"
    unfolding penalty_def scoring.simps by (rule two_hits_penalty)
  have c: "(1632554864921805 / 281474976710656 :: rat) \<noteq> dbl (58 / 10)" by code_simp
  have d: "(1182194902184755 / 281474976710656 :: rat) \<noteq> dbl (42 / 10)" by code_simp
  show ?thesis
    using a c d
    by (simp add: b two_reports_danger two_reports_vibe sampled_points_single two_reports_pass
        two_reports_analysis)
qed

section \<open>Path generation\<close>

lemma generate_real_paths_nonempty_paths:
  "\<forall>path\<in>set (generate_real_paths svc start end'). path \<noteq> []"
  by (auto simp: generate_real_paths_def Let_def)

text \<open>Every path handed to the scoring is non-empty, and all three attempts can succeed.\<close>

lemma generate_real_paths_three:
  "length (generate_real_paths osrm_straight times_square bryant_park) = 3"
  by (simp add: generate_real_paths_def fetch_osrm_route_def osrm_straight_def Let_def)

text \<open>
  C5. Path generation returns between one and three paths, and when the primary attempt
  and both legs of both waypoint alternates come back empty it returns the single path
  \<open>[start, end]\<close>.
\<close>

theorem generate_real_paths_count:
  "1 \<le> length (generate_real_paths svc start end')
   \<and> length (generate_real_paths svc start end') \<le> 3
   \<and> (fetch_osrm_route svc start end' ''foot'' = []
      \<and> fetch_osrm_route svc start (waypoint_north start end') ''foot'' = []
      \<and> fetch_osrm_route svc (waypoint_north start end') end' ''foot'' = []
      \<and> fetch_osrm_route svc start (waypoint_south start end') ''foot'' = []
      \<and> fetch_osrm_route svc (waypoint_south start end') end' ''foot'' = []
      \<longrightarrow> generate_real_paths svc start end' = [[start, end']])"
  by (simp add: generate_real_paths_def Let_def)

theorem generate_real_paths_count_witness:
  "fetch_osrm_route osrm_down times_square bryant_park ''foot'' = []
   \<and> fetch_osrm_route osrm_down times_square (waypoint_north times_square bryant_park) ''foot'' = []
   \<and> fetch_osrm_route osrm_down (waypoint_north times_square bryant_park) bryant_park ''foot'' = []
   \<and> fetch_osrm_route osrm_down times_square (waypoint_south times_square bryant_park) ''foot'' = []
   \<and> fetch_osrm_route osrm_down (waypoint_south times_square bryant_park) bryant_park ''foot'' = []
   \<and> generate_real_paths osrm_down times_square bryant_park = [[times_square, bryant_park]]"
  using generate_real_paths_count[of osrm_down times_square bryant_park]
  by (simp add: fetch_osrm_route_def osrm_down_def)

section \<open>The store\<close>

lemma upsert_point_fresh:
  "point_id p \<notin> point_id ` set c \<Longrightarrow> upsert_point p c = c @ [p]"
  by (induction c) auto

lemma map_unchanged:
  "name \<notin> set (map fst q) \<Longrightarrow> map (\<lambda>c. if fst c = name then f c else c) q = q"
  by (induction q) auto

lemma upsert_names:
  "upsert name points q = (r, q') \<Longrightarrow> map fst q' = map fst q"
  by (auto simp: upsert_def split: if_splits)

lemma upsert_fresh_records:
  assumes "name \<in> set (map fst q)" and "distinct (map fst q)"
    and "point_id p \<notin> point_id ` set (records q)"
  shows "\<exists>q'. upsert name [p] q = (Inr (), q') \<and> mset (records q') = mset (records q) + {#p#}
           \<and> map fst q' = map fst q"
proof -
  define q' where "q' = map (\<lambda>c. if fst c = name then (fst c, fold upsert_point [p] (snd c)) else c) q"
  have up: "upsert name [p] q = (Inr (), q')" using assms(1) by (simp add: upsert_def q'_def)
  have "mset (records q') = mset (records q) + {#p#}"
    using assms unfolding q'_def
  proof (induction q)
    case Nil
    then show ?case by simp
  next
    case (Cons c q)
    show ?case
    proof (cases "fst c = name")
      case True
      then have rest: "map (\<lambda>c. if fst c = name then (fst c, fold upsert_point [p] (snd c)) else c) q = q"
        using Cons.prems(2) by (intro map_unchanged) auto
      have "point_id p \<notin> point_id ` set (snd c)" using Cons.prems(3) by (auto simp: records_def)
      then show ?thesis using True rest by (simp add: records_def upsert_point_fresh)
    next
      case False
      then have "name \<in> set (map fst q)" using Cons.prems(1) by auto
      moreover have "distinct (map fst q)" using Cons.prems(2) by simp
      moreover have "point_id p \<notin> point_id ` set (records q)"
        using Cons.prems(3) by (auto simp: records_def)
      ultimately have "mset (records (map (\<lambda>c. if fst c = name then (fst c, fold upsert_point [p] (snd c)) else c) q))
          = mset (records q) + {#p#}" by (rule Cons.IH)
      then show ?thesis using False by (simp add: records_def)
    qed
  qed
  moreover have "map fst q' = map fst q" using upsert_names[OF up] .
  ultimately show ?thesis using up by blast
qed

subsection \<open>User reports\<close>

text \<open>
  C3, as the code does it. Nothing checks the ranges of the coordinate or the text: for
  every report, when the target collection exists and the fresh id is not stored yet, the
  call answers success and the index gains exactly the report's point, with the text and
  the coordinate as submitted.
\<close>

theorem report_vibe_inserts:
  assumes "COLLECTION_NAME \<in> set (map fst q)" and "distinct (map fst q)"
    and "StrId uuid \<notin> point_id ` set (records q)"
  shows "\<exists>q'. report_vibe get_vector uuid now report q =
               (Inr \<lparr>response_status = ''success'',
                     response_message = ''Vibe memory updated. Search again to see impact.'',
                     response_location = (report_lat report, report_lng report)\<rparr>, q')
            \<and> mset (records q') = mset (records q) + {#report_point get_vector uuid now report#}
            \<and> payload_text (point_payload (report_point get_vector uuid now report))
                 = Some (description report)
            \<and> payload_location (point_payload (report_point get_vector uuid now report))
                 = Some (report_lat report, report_lng report)"
proof -
  have "point_id (report_point get_vector uuid now report) \<notin> point_id ` set (records q)"
    using assms(3) by (simp add: report_point_def)
  from upsert_fresh_records[OF assms(1,2) this] obtain q' where
    "upsert COLLECTION_NAME [report_point get_vector uuid now report] q = (Inr (), q')"
    "mset (records q') = mset (records q) + {#report_point get_vector uuid now report#}"
    by blast
  then show ?thesis by (simp add: report_vibe_def report_point_def)
qed

theorem report_vibe_inserts_witness:
  "COLLECTION_NAME \<in> set (map fst empty_collection)
   \<and> distinct (map fst empty_collection)
   \<and> StrId ''1b4e28ba-2fa1-41d2-883f-0016d3cca427'' \<notin> point_id ` set (records empty_collection)
   \<and> fst (report_vibe mock_vector ''1b4e28ba-2fa1-41d2-883f-0016d3cca427''
             ''2025-01-01T12:00:00'' bad_report empty_collection)
       = Inr \<lparr>response_status = ''success'',
              response_message = ''Vibe memory updated. Search again to see impact.'',
              response_location = (100, 200)\<rparr>"
proof -
  have a: "COLLECTION_NAME \<in> set (map fst empty_collection)"
    and b: "distinct (map fst empty_collection)"
    and c: "StrId ''1b4e28ba-2fa1-41d2-883f-0016d3cca427'' \<notin> point_id ` set (records empty_collection)"
    by (simp_all add: empty_collection_def records_def)
  from report_vibe_inserts[OF a b c, of mock_vector "''2025-01-01T12:00:00''" bad_report]
  show ?thesis using a b c by (auto simp: bad_report_def)
qed

text \<open>
  C3, as stated, fails: the report with latitude \<open>100\<close>, longitude \<open>200\<close> and the empty
  text is answered with success, and the index that held no record holds its point.
\<close>

theorem report_vibe_counterexample:
  "90 < report_lat bad_report
   \<and> 180 < report_lng bad_report
   \<and> description bad_report = []
   \<and> records empty_collection = []
   \<and> fst (report_vibe mock_vector ''1b4e28ba-2fa1-41d2-883f-0016d3cca427''
             ''2025-01-01T12:00:00'' bad_report empty_collection)
       = Inr \<lparr>response_status = ''success'',
              response_message = ''Vibe memory updated. Search again to see impact.'',
              response_location = (100, 200)\<rparr>
   \<and> records (snd (report_vibe mock_vector ''1b4e28ba-2fa1-41d2-883f-0016d3cca427''
                      ''2025-01-01T12:00:00'' bad_report empty_collection))
       = [report_point mock_vector ''1b4e28ba-2fa1-41d2-883f-0016d3cca427''
            ''2025-01-01T12:00:00'' bad_report]"
  by (simp add: report_vibe_def upsert_def empty_collection_def records_def bad_report_def)

subsection \<open>Startup\<close>

lemma batch_upsert_names:
  "batch_upsert get_vector ips ups q = (r, q') \<Longrightarrow> map fst q' = map fst q"
proof (induction get_vector ips ups q rule: batch_upsert.induct)
  case (1 get_vector upsert_points q)
  then show ?case by simp
next
  case (2 get_vector i p rest upsert_points q)
  show ?case
  proof (cases "100 \<le> length (upsert_points @ [seed_struct get_vector i p])")
    case False
    with 2 show ?thesis by (simp add: Let_def)
  next
    case True
    obtain r1 q1 where u: "upsert COLLECTION_NAME (upsert_points @ [seed_struct get_vector i p]) q = (r1, q1)"
      by (cases "upsert COLLECTION_NAME (upsert_points @ [seed_struct get_vector i p]) q")
    have n1: "map fst q1 = map fst q" using upsert_names[OF u] .
    show ?thesis
    proof (cases r1)
      case (Inl e)
      with 2(3) True u have "q' = q1" by (simp add: Let_def)
      with n1 show ?thesis by simp
    next
      case (Inr v)
      with 2(3) True u have "batch_upsert get_vector rest [] q1 = (r, q')" by (simp add: Let_def)
      from 2(1)[OF refl True u[symmetric] _ this] Inr n1 show ?thesis by simp
    qed
  qed
qed

lemma seed_nyc_data_names:
  assumes "seed_nyc_data get_vector feed q = (r, q')"
  shows "map fst q' = map fst q"
proof -
  define points where
    "points = (case feed of Inl e \<Rightarrow> [] | Inr crime_data \<Rightarrow> crime_points crime_data []) @ reviews"
  obtain r1 q1 where b: "batch_upsert get_vector (enumerate 0 points) [] q = (r1, q1)"
    by (cases "batch_upsert get_vector (enumerate 0 points) [] q")
  have n1: "map fst q1 = map fst q" using batch_upsert_names[OF b] .
  have s: "seed_nyc_data get_vector feed q =
      (case r1 of Inl e \<Rightarrow> (Inl e, q1)
       | Inr ups \<Rightarrow> if ups \<noteq> [] then upsert COLLECTION_NAME ups q1 else (Inr (), q1))"
    using b by (simp add: seed_nyc_data_def points_def Let_def split: sum.splits)
  show ?thesis
  proof (cases r1)
    case (Inl e)
    with s assms n1 show ?thesis by simp
  next
    case (Inr ups)
    show ?thesis
    proof (cases "ups = []")
      case True
      with s assms n1 Inr show ?thesis by simp
    next
      case False
      with s assms Inr have "upsert COLLECTION_NAME ups q1 = (r, q')" by simp
      from upsert_names[OF this] n1 show ?thesis by simp
    qed
  qed
qed

lemma create_collection_names:
  "create_collection name q = (Inr u, q') \<Longrightarrow> name \<in> set (map fst q')"
  by (auto simp: create_collection_def split: if_splits)

lemma startup_event_establishes:
  assumes "startup_event get_vector fault feed q = (Inr l, q')"
  shows "COLLECTION_NAME \<in> set (map fst q')"
proof (cases "\<not> fault \<and> COLLECTION_NAME \<in> set (map fst q)")
  case True
  then have "startup_event get_vector fault feed q = (Inr Collection_already_exists, q)"
    by (auto simp: startup_event_def get_collections_def list_ex_iff)
  with assms True show ?thesis by simp
next
  case False
  obtain r1 q1 where c: "create_collection COLLECTION_NAME q = (r1, q1)"
    by (cases "create_collection COLLECTION_NAME q")
  obtain r2 q2 where sd: "seed_nyc_data get_vector feed q1 = (r2, q2)"
    by (cases "seed_nyc_data get_vector feed q1")
  have s: "startup_event get_vector fault feed q =
      (case r1 of Inl e \<Rightarrow> (Inl e, q1)
       | Inr u \<Rightarrow> (case r2 of Inl e \<Rightarrow> (Inl e, q2) | Inr u' \<Rightarrow> (Inr Collection_created, q2)))"
    using False c sd
    by (auto simp: startup_event_def get_collections_def list_ex_iff split: sum.splits)
  from s assms obtain u where r1: "r1 = Inr u" and "q' = q2"
    by (auto split: sum.splits)
  from c[unfolded r1] have "COLLECTION_NAME \<in> set (map fst q1)" by (rule create_collection_names)
  with seed_nyc_data_names[OF sd] \<open>q' = q2\<close> show ?thesis by simp
qed

lemma startup_event_existing:
  assumes "COLLECTION_NAME \<in> set (map fst q)"
  shows "startup_event get_vector fault feed q =
           (if fault then Inl CollectionExists else Inr Collection_already_exists, q)"
  using assms
  by (auto simp: startup_event_def get_collections_def create_collection_def list_ex_iff)

lemma seeded_store_contents:
  "fst (startup_event mock_vector False (Inr sample_feed) []) = Inr Collection_created
   \<and> map fst seeded_store = [COLLECTION_NAME]
   \<and> map point_id (records seeded_store)
       = [IntId 0, IntId 1, IntId 2, IntId 3, IntId 4, IntId 5, IntId 6]
   \<and> map (payload_type \<circ> point_payload) (records seeded_store)
       = [Some ''crime'', Some ''review'', Some ''review'', Some ''review'', Some ''review'',
          Some ''review'', Some ''review'']"
  by code_simp

text \<open>
  C8. A startup on an index that holds the target collection loads no seed: it takes the
  branch that only logs, or, when the listing request failed, is stopped by
  \<open>create_collection\<close> raising on the existing name; either way the store it leaves is
  the store it found, with the same records.
\<close>

theorem startup_event_idempotent:
  assumes "COLLECTION_NAME \<in> set (map fst q)"
  shows "snd (startup_event get_vector fault feed q) = q
       \<and> mset (records (snd (startup_event get_vector fault feed q))) = mset (records q)
       \<and> fst (startup_event get_vector fault feed q) =
           (if fault then Inl CollectionExists else Inr Collection_already_exists)"
  by (simp add: startup_event_existing[OF assms])

theorem startup_event_idempotent_witness:
  "fst (startup_event mock_vector False (Inr sample_feed) []) = Inr Collection_created
   \<and> COLLECTION_NAME \<in> set (map fst seeded_store)
   \<and> startup_event mock_vector False (Inr sample_feed) seeded_store
       = (Inr Collection_already_exists, seeded_store)
   \<and> length (records seeded_store) = 7"
proof -
  have e: "COLLECTION_NAME \<in> set (map fst seeded_store)"
    by (simp add: seeded_store_contents)
  have "length (map point_id (records seeded_store)) = 7"
    by (simp only: seeded_store_contents) simp
  then have l: "length (records seeded_store) = 7" by simp
  from startup_event_idempotent[OF e, of mock_vector False "Inr sample_feed"]
  show ?thesis using e l seeded_store_contents by (simp add: prod_eq_iff)
qed

section \<open>The routes endpoint\<close>

text \<open>
  With an index that answers every query the endpoint returns one option per generated
  path: the paths are non-empty, so no stride divides by zero, and there are at most three,
  so every index into \<open>descriptions\<close> is in range.
\<close>

lemma route_options_returns:
  assumes "\<forall>coll q limit flt. \<exists>hits. srch coll q limit flt = Inr hits"
    and "\<forall>ip\<in>set ips. fst ip < 3 \<and> snd ip \<noteq> []"
  shows "\<exists>response. route_options get_vector srch ips = Inr response
                    \<and> length response = length ips"
  using assms(2)
proof (induction ips)
  case Nil
  show ?case by simp
next
  case (Cons ip ips)
  obtain i path where ip: "ip = (i, path)" by (cases ip)
  from Cons.prems ip have i: "i < 3" and path: "path \<noteq> []" by auto
  obtain a where a: "score_route get_vector srch path = Inr a"
    using score_route_returns[OF path assms(1)] by blast
  obtain opt where opt: "route_option i path a = Inr opt"
    using i by (simp add: route_option_def descriptions_def)
  from Cons have "\<exists>response. route_options get_vector srch ips = Inr response
                    \<and> length response = length ips" by simp
  then obtain response where "route_options get_vector srch ips = Inr response"
    and "length response = length ips" by blast
  then show ?case by (simp add: ip a opt)
qed

lemma get_routes_returns:
  assumes "\<forall>coll q limit flt. \<exists>hits. srch coll q limit flt = Inr hits"
  shows "\<exists>response. get_routes get_vector srch svc start_lat start_lng end_lat end_lng = Inr response
                    \<and> 1 \<le> length response \<and> length response \<le> 3"
proof -
  define paths where
    "paths = generate_real_paths svc \<lparr>lat = start_lat, lng = start_lng\<rparr> \<lparr>lat = end_lat, lng = end_lng\<rparr>"
  have len: "1 \<le> length paths \<and> length paths \<le> 3"
    by (simp add: paths_def generate_real_paths_def Let_def)
  have ne: "\<forall>path\<in>set paths. path \<noteq> []"
    unfolding paths_def by (rule generate_real_paths_nonempty_paths)
  have "\<forall>ip\<in>set (enumerate 0 paths). fst ip < 3 \<and> snd ip \<noteq> []"
    using len ne by (auto simp: in_set_enumerate_eq)
  from route_options_returns[OF assms this, of get_vector]
  obtain response where "route_options get_vector srch (enumerate 0 paths) = Inr response"
    and "length response = length paths" by auto
  then show ?thesis using len by (simp add: get_routes_def paths_def Let_def)
qed

end
